theory Spec2Isabelle
  imports Main
begin

section \<open>Path helpers of the Go library used by the program (Unix build)\<close>

text \<open>
  The program calls \<open>filepath.Base\<close>, \<open>filepath.Ext\<close> and \<open>filepath.Join\<close>.
  Go strings are byte sequences; a \<open>string\<close> here is a list of 8-bit characters.
  The separator is the slash (the build for Linux and macOS).
\<close>

definition isPathSeparator :: "char \<Rightarrow> bool" where
  "isPathSeparator c = (c = CHR ''/'')"

text \<open>
  \<open>filepath.Base\<close>: the empty path gives a dot; trailing separators are stripped;
  the last element is what follows the last separator; a path of separators only
  gives one separator.
\<close>

definition filepath_Base :: "string \<Rightarrow> string" where
  "filepath_Base path =
     (if path = [] then ''.''
      else
        let stripped = rev (dropWhile isPathSeparator (rev path));
            elem = rev (takeWhile (\<lambda>c. \<not> isPathSeparator c) (rev stripped))
        in if elem = [] then ''/'' else elem)"

text \<open>
  \<open>filepath.Ext\<close> scans from the last byte towards the first and stops at a
  separator; at the first dot it returns the suffix that starts there. The first
  argument of \<open>ext_scan\<close> is the part of the path not yet visited, reversed; the
  second is the suffix already passed.
\<close>

fun ext_scan :: "string \<Rightarrow> string \<Rightarrow> string" where
  "ext_scan [] suffix = []"
| "ext_scan (c # unvisited) suffix =
     (if isPathSeparator c then []
      else if c = CHR ''.'' then c # suffix
      else ext_scan unvisited (c # suffix))"

definition filepath_Ext :: "string \<Rightarrow> string" where
  "filepath_Ext path = ext_scan (rev path) []"

text \<open>\<open>getFileExtension\<close> of the program: the extension, or \<open>.jpg\<close> when there is none.\<close>

definition getFileExtension :: "string \<Rightarrow> string" where
  "getFileExtension path =
     (let ext = filepath_Ext path in if ext = [] then ''.jpg'' else ext)"

text \<open>The decimal rendering of a non-negative integer (\<open>%d\<close> of \<open>fmt.Sprintf\<close>).\<close>

definition digit_char :: "nat \<Rightarrow> char" where
  "digit_char d = ''0123456789'' ! d"

function itoa :: "nat \<Rightarrow> string" where
  "itoa n = (if n < 10 then [digit_char n] else itoa (n div 10) @ [digit_char (n mod 10)])"
  by pat_completeness auto
termination
  by (relation "measure (\<lambda>n. n)") auto

declare itoa.simps [simp del]

text \<open>
  The Name Deriver, as the loop of \<open>main\<close> computes it from the path of the resolved
  URL and the 0-based index of the entry.
\<close>

definition deriveName :: "string \<Rightarrow> nat \<Rightarrow> string" where
  "deriveName urlPath i =
     (let fileName = filepath_Base urlPath
      in if fileName = [] \<or> fileName = ''/'' \<or> fileName = ''.''
         then ''image_'' @ itoa (i + 1) @ getFileExtension urlPath
         else fileName)"

text \<open>
  \<open>filepath.Clean\<close>. The loop reads the path from left to right and writes to a
  buffer; \<open>dotdot\<close> is the length of the prefix of the buffer that a \<open>..\<close> element
  must not remove. \<open>clean_backtrack\<close> is the inner loop that drops the last
  element written: it walks the write index down to the previous separator.
\<close>

function clean_backtrack :: "string \<Rightarrow> nat \<Rightarrow> nat \<Rightarrow> nat" where
  "clean_backtrack buf dotdot w =
     (if w > dotdot \<and> \<not> isPathSeparator (buf ! w)
      then clean_backtrack buf dotdot (w - 1) else w)"
  by pat_completeness auto
termination
  by (relation "measure (\<lambda>(buf, dotdot, w). w)") auto

declare clean_backtrack.simps [simp del]

function clean_loop :: "bool \<Rightarrow> string \<Rightarrow> string \<Rightarrow> nat \<Rightarrow> string" where
  "clean_loop rooted [] buf dotdot = buf"
| "clean_loop rooted (c # cs) buf dotdot =
     (if isPathSeparator c then clean_loop rooted cs buf dotdot
      else if c = CHR ''.'' \<and> (cs = [] \<or> isPathSeparator (hd cs))
        then clean_loop rooted cs buf dotdot
      else if c = CHR ''.'' \<and> hd cs = CHR ''.'' \<and> (tl cs = [] \<or> isPathSeparator (hd (tl cs)))
        then (if length buf > dotdot
              then clean_loop rooted (tl cs)
                     (take (clean_backtrack buf dotdot (length buf - 1)) buf) dotdot
              else if \<not> rooted
              then (let buf' = (if length buf > 0 then buf @ ''/'' else buf) @ ''..''
                    in clean_loop rooted (tl cs) buf' (length buf'))
              else clean_loop rooted (tl cs) buf dotdot)
      else
        (let buf' = (if rooted \<and> length buf \<noteq> 1 \<or> \<not> rooted \<and> length buf \<noteq> 0
                     then buf @ ''/'' else buf)
         in clean_loop rooted (dropWhile (\<lambda>x. \<not> isPathSeparator x) cs)
              (buf' @ c # takeWhile (\<lambda>x. \<not> isPathSeparator x) cs) dotdot))"
  by pat_completeness auto
termination
  by (relation "measure (\<lambda>(rooted, path, buf, dotdot). length path)")
     (auto simp: length_dropWhile_le le_imp_less_Suc)

declare clean_loop.simps [simp del]

definition filepath_Clean :: "string \<Rightarrow> string" where
  "filepath_Clean path =
     (if path = [] then ''.''
      else
        let rooted = isPathSeparator (hd path);
            buf = (if rooted then clean_loop True (tl path) ''/'' 1
                   else clean_loop False path [] 0)
        in if buf = [] then ''.'' else buf)"

text \<open>\<open>strings.Join\<close> with the separator, and \<open>filepath.Join\<close>, which skips leading
  empty elements and cleans the result.\<close>

fun strings_Join :: "string list \<Rightarrow> string \<Rightarrow> string" where
  "strings_Join [] sep = []"
| "strings_Join [e] sep = e"
| "strings_Join (e # es) sep = e @ sep @ strings_Join es sep"

definition filepath_Join :: "string list \<Rightarrow> string" where
  "filepath_Join elems =
     (case dropWhile (\<lambda>e. e = []) elems of
        [] \<Rightarrow> []
      | es \<Rightarrow> filepath_Clean (strings_Join es ''/''))"

section \<open>The URL library used by the program\<close>

text \<open>
  The loop of \<open>main\<close> resolves every source string with \<open>base.Parse(src)\<close> of
  Go's \<open>net/url\<close> and then reads \<open>imgURL.Path\<close> and \<open>imgURL.String()\<close>. The
  functions below follow that package, function by function (the release line
  that has the \<open>OmitHost\<close> field, before bracketed hosts were validated as IPv6
  addresses). \<open>Parse\<close> always calls \<open>parse\<close> with \<open>viaRequest = false\<close>, so the
  branches that need \<open>viaRequest\<close> are left out.
\<close>

datatype error =
    ErrorString string
  | EscapeError string
  | InvalidHostError string
  | InvalidPortError string
  | URLError string string error

record Userinfo =
  username :: string
  password :: string
  passwordSet :: bool

record URL =
  Scheme :: string
  Opaque :: string
  User :: "Userinfo option"
  Host :: string
  Path :: string
  RawPath :: string
  OmitHost :: bool
  ForceQuery :: bool
  RawQuery :: string
  Fragment :: string
  RawFragment :: string

definition emptyURL :: URL where
  "emptyURL = \<lparr>Scheme = [], Opaque = [], User = None, Host = [], Path = [], RawPath = [],
     OmitHost = False, ForceQuery = False, RawQuery = [], Fragment = [], RawFragment = []\<rparr>"

datatype encoding =
    encodePath
  | encodePathSegment
  | encodeHost
  | encodeZone
  | encodeUserPassword
  | encodeQueryComponent
  | encodeFragment

subsection \<open>Bytes and the string helpers\<close>

definition byte :: "char \<Rightarrow> nat" where
  "byte c = of_char c"

definition isLower :: "char \<Rightarrow> bool" where
  "isLower c = (byte CHR ''a'' \<le> byte c \<and> byte c \<le> byte CHR ''z'')"

definition isUpper :: "char \<Rightarrow> bool" where
  "isUpper c = (byte CHR ''A'' \<le> byte c \<and> byte c \<le> byte CHR ''Z'')"

definition isDigit :: "char \<Rightarrow> bool" where
  "isDigit c = (byte CHR ''0'' \<le> byte c \<and> byte c \<le> byte CHR ''9'')"

definition toLower :: "char \<Rightarrow> char" where
  "toLower c = (if isUpper c then char_of (byte c + 32) else c)"

definition strings_ToLower :: "string \<Rightarrow> string" where
  "strings_ToLower s = map toLower s"

definition strings_HasPrefix :: "string \<Rightarrow> string \<Rightarrow> bool" where
  "strings_HasPrefix s p = (take (length p) s = p)"

text \<open>\<open>strings.Cut\<close> around the first occurrence of a one-byte separator.\<close>

definition strings_Cut :: "string \<Rightarrow> char \<Rightarrow> string \<times> string \<times> bool" where
  "strings_Cut s sep =
     (let found = (sep \<in> set s)
      in (takeWhile (\<lambda>c. c \<noteq> sep) s,
          (if found then tl (dropWhile (\<lambda>c. c \<noteq> sep) s) else []),
          found))"

text \<open>\<open>strings.Index\<close> and \<open>strings.LastIndex\<close> for a one-byte needle; \<open>None\<close> is \<open>-1\<close>.\<close>

definition strings_Index :: "string \<Rightarrow> char \<Rightarrow> nat option" where
  "strings_Index s c = (if c \<in> set s then Some (length (takeWhile (\<lambda>x. x \<noteq> c) s)) else None)"

definition strings_LastIndex :: "string \<Rightarrow> char \<Rightarrow> nat option" where
  "strings_LastIndex s c =
     (if c \<in> set s then Some (length s - 1 - length (takeWhile (\<lambda>x. x \<noteq> c) (rev s))) else None)"

text \<open>\<open>strings.Index\<close> for a needle of several bytes.\<close>

fun index_from :: "string \<Rightarrow> string \<Rightarrow> nat \<Rightarrow> nat option" where
  "index_from [] needle i = (if needle = [] then Some i else None)"
| "index_from (c # cs) needle i =
     (if strings_HasPrefix (c # cs) needle then Some i else index_from cs needle (i + 1))"

definition strings_IndexStr :: "string \<Rightarrow> string \<Rightarrow> nat option" where
  "strings_IndexStr s needle = index_from s needle 0"

definition ishex :: "char \<Rightarrow> bool" where
  "ishex c = (isDigit c
     \<or> (byte CHR ''a'' \<le> byte c \<and> byte c \<le> byte CHR ''f'')
     \<or> (byte CHR ''A'' \<le> byte c \<and> byte c \<le> byte CHR ''F''))"

definition unhex :: "char \<Rightarrow> nat" where
  "unhex c =
     (if isDigit c then byte c - byte CHR ''0''
      else if byte CHR ''a'' \<le> byte c \<and> byte c \<le> byte CHR ''f'' then byte c - byte CHR ''a'' + 10
      else if byte CHR ''A'' \<le> byte c \<and> byte c \<le> byte CHR ''F'' then byte c - byte CHR ''A'' + 10
      else 0)"

definition upperhex :: "nat \<Rightarrow> char" where
  "upperhex n = ''0123456789ABCDEF'' ! n"

definition stringContainsCTLByte :: "string \<Rightarrow> bool" where
  "stringContainsCTLByte s = (\<exists>b \<in> set s. byte b < byte CHR '' '' \<or> byte b = 127)"

subsection \<open>Escaping\<close>

definition shouldEscape :: "char \<Rightarrow> encoding \<Rightarrow> bool" where
  "shouldEscape c mode =
     (if isLower c \<or> isUpper c \<or> isDigit c then False
      else if (mode = encodeHost \<or> mode = encodeZone) \<and> c \<in> set (''!$&()*+,;=:[]<>'' @ [CHR 0x27, CHR 0x22])
        then False
      else if c \<in> set ''-_.~'' then False
      else if c \<in> set ''$&+,/:;=?@'' then
        (case mode of
           encodePath \<Rightarrow> c = CHR ''?''
         | encodePathSegment \<Rightarrow> c \<in> set ''/;,?''
         | encodeUserPassword \<Rightarrow> c \<in> set ''@/?:''
         | encodeQueryComponent \<Rightarrow> True
         | encodeFragment \<Rightarrow> False
         | _ \<Rightarrow> True)
      else if mode = encodeFragment \<and> c \<in> set ''!()*'' then False
      else True)"

text \<open>
  \<open>unescape\<close> first checks that every percent sign starts a well-formed escape
  (and, for hosts, that the bytes are allowed), then decodes. \<open>unescape_check\<close>
  returns the error of the first pass, if any.
\<close>

function unescape_check :: "encoding \<Rightarrow> string \<Rightarrow> error option" where
  "unescape_check mode [] = None"
| "unescape_check mode (c # cs) =
     (if c = CHR ''%'' then
        (if length cs < 2 \<or> \<not> ishex (cs ! 0) \<or> \<not> ishex (cs ! 1)
           then Some (EscapeError (take 3 (c # cs)))
         else if mode = encodeHost \<and> unhex (cs ! 0) < 8 \<and> take 3 (c # cs) \<noteq> ''%25''
           then Some (EscapeError (take 3 (c # cs)))
         else if mode = encodeZone
              \<and> take 3 (c # cs) \<noteq> ''%25''
              \<and> unhex (cs ! 0) * 16 + unhex (cs ! 1) \<noteq> 32
              \<and> shouldEscape (char_of (unhex (cs ! 0) * 16 + unhex (cs ! 1))) encodeHost
           then Some (EscapeError (take 3 (c # cs)))
         else unescape_check mode (drop 2 cs))
      else if c = CHR ''+'' then unescape_check mode cs
      else if (mode = encodeHost \<or> mode = encodeZone) \<and> byte c < 128 \<and> shouldEscape c encodeHost
        then Some (InvalidHostError [c])
      else unescape_check mode cs)"
  by pat_completeness auto
termination
  by (relation "measure (\<lambda>(mode, s). length s)") auto

function unescape_decode :: "encoding \<Rightarrow> string \<Rightarrow> string" where
  "unescape_decode mode [] = []"
| "unescape_decode mode (c # cs) =
     (if c = CHR ''%''
        then char_of (unhex (cs ! 0) * 16 + unhex (cs ! 1)) # unescape_decode mode (drop 2 cs)
      else if c = CHR ''+''
        then (if mode = encodeQueryComponent then CHR '' '' else CHR ''+'') # unescape_decode mode cs
      else c # unescape_decode mode cs)"
  by pat_completeness auto
termination
  by (relation "measure (\<lambda>(mode, s). length s)") auto

definition unescape :: "string \<Rightarrow> encoding \<Rightarrow> error + string" where
  "unescape s mode =
     (case unescape_check mode s of
        Some e \<Rightarrow> Inl e
      | None \<Rightarrow>
          if CHR ''%'' \<notin> set s \<and> \<not> (mode = encodeQueryComponent \<and> CHR ''+'' \<in> set s)
          then Inr s
          else Inr (unescape_decode mode s))"

definition escape_byte :: "encoding \<Rightarrow> char \<Rightarrow> string" where
  "escape_byte mode c =
     (if shouldEscape c mode then
        (if c = CHR '' '' \<and> mode = encodeQueryComponent then ''+''
         else [CHR ''%'', upperhex (byte c div 16), upperhex (byte c mod 16)])
      else [c])"

definition escape :: "string \<Rightarrow> encoding \<Rightarrow> string" where
  "escape s mode = concat (map (escape_byte mode) s)"

definition validEncoded :: "string \<Rightarrow> encoding \<Rightarrow> bool" where
  "validEncoded s mode =
     (\<forall>c \<in> set s. c \<in> set (''!$&()*+,;=:@[]%'' @ [CHR 0x27]) \<or> \<not> shouldEscape c mode)"

definition setPath :: "URL \<Rightarrow> string \<Rightarrow> error + URL" where
  "setPath u p =
     (case unescape p encodePath of
        Inl e \<Rightarrow> Inl e
      | Inr path \<Rightarrow>
          Inr (u\<lparr>Path := path, RawPath := (if p = escape path encodePath then [] else p)\<rparr>))"

definition EscapedPath :: "URL \<Rightarrow> string" where
  "EscapedPath u =
     (if RawPath u \<noteq> [] \<and> validEncoded (RawPath u) encodePath
         \<and> unescape (RawPath u) encodePath = Inr (Path u)
      then RawPath u
      else if Path u = ''*'' then ''*''
      else escape (Path u) encodePath)"

definition setFragment :: "URL \<Rightarrow> string \<Rightarrow> error + URL" where
  "setFragment u f =
     (case unescape f encodeFragment of
        Inl e \<Rightarrow> Inl e
      | Inr frag \<Rightarrow>
          Inr (u\<lparr>Fragment := frag,
                 RawFragment := (if f = escape frag encodeFragment then [] else f)\<rparr>))"

definition EscapedFragment :: "URL \<Rightarrow> string" where
  "EscapedFragment u =
     (if RawFragment u \<noteq> [] \<and> validEncoded (RawFragment u) encodeFragment
         \<and> unescape (RawFragment u) encodeFragment = Inr (Fragment u)
      then RawFragment u
      else escape (Fragment u) encodeFragment)"

subsection \<open>Parsing\<close>

text \<open>
  \<open>getScheme\<close> scans for the colon that ends a scheme. \<open>i\<close> is the index of the
  byte under inspection in \<open>rawURL\<close>.
\<close>

fun getScheme_loop :: "string \<Rightarrow> nat \<Rightarrow> string \<Rightarrow> error + string \<times> string" where
  "getScheme_loop rawURL i [] = Inr ([], rawURL)"
| "getScheme_loop rawURL i (c # cs) =
     (if isLower c \<or> isUpper c then getScheme_loop rawURL (i + 1) cs
      else if isDigit c \<or> c \<in> set ''+-.'' then
        (if i = 0 then Inr ([], rawURL) else getScheme_loop rawURL (i + 1) cs)
      else if c = CHR '':'' then
        (if i = 0 then Inl (ErrorString ''missing protocol scheme'')
         else Inr (take i rawURL, drop (i + 1) rawURL))
      else Inr ([], rawURL))"

definition getScheme :: "string \<Rightarrow> error + string \<times> string" where
  "getScheme rawURL = getScheme_loop rawURL 0 rawURL"

definition validOptionalPort :: "string \<Rightarrow> bool" where
  "validOptionalPort port =
     (if port = [] then True
      else if hd port \<noteq> CHR '':'' then False
      else (\<forall>b \<in> set (tl port). isDigit b))"

definition validUserinfo :: "string \<Rightarrow> bool" where
  "validUserinfo s =
     (\<forall>r \<in> set s. isUpper r \<or> isLower r \<or> isDigit r
         \<or> r \<in> set (''-._:~!$&()*+,;=%@'' @ [CHR 0x27]))"

text \<open>The three results of \<open>unescape\<close> that \<open>parseHost\<close> joins for a host with a zone.\<close>

definition unescape3 ::
  "string \<Rightarrow> encoding \<Rightarrow> string \<Rightarrow> encoding \<Rightarrow> string \<Rightarrow> encoding \<Rightarrow> error + string" where
  "unescape3 a ma b mb c mc =
     (case unescape a ma of
        Inl e \<Rightarrow> Inl e
      | Inr host1 \<Rightarrow>
          (case unescape b mb of
             Inl e \<Rightarrow> Inl e
           | Inr host2 \<Rightarrow>
               (case unescape c mc of
                  Inl e \<Rightarrow> Inl e
                | Inr host3 \<Rightarrow> Inr (host1 @ host2 @ host3))))"

definition parseHost :: "string \<Rightarrow> error + string" where
  "parseHost host =
     (if strings_HasPrefix host ''[''
      then
        (case strings_LastIndex host CHR '']'' of
           None \<Rightarrow> Inl (ErrorString (''missing '' @ [CHR 0x27] @ '']'' @ [CHR 0x27] @ '' in host''))
         | Some i \<Rightarrow>
             if \<not> validOptionalPort (drop (i + 1) host)
             then Inl (InvalidPortError (drop (i + 1) host))
             else
               (case strings_IndexStr (take i host) ''%25'' of
                  Some zone \<Rightarrow>
                    unescape3 (take zone host) encodeHost
                      (drop zone (take i host)) encodeZone
                      (drop i host) encodeHost
                | None \<Rightarrow> unescape host encodeHost))
      else
        (case strings_LastIndex host CHR '':'' of
           Some i \<Rightarrow>
             if \<not> validOptionalPort (drop i host) then Inl (InvalidPortError (drop i host))
             else unescape host encodeHost
         | None \<Rightarrow> unescape host encodeHost))"

definition parseUserinfo :: "string \<Rightarrow> error + Userinfo" where
  "parseUserinfo userinfo =
     (if CHR '':'' \<notin> set userinfo
      then
        (case unescape userinfo encodeUserPassword of
           Inl e \<Rightarrow> Inl e
         | Inr name \<Rightarrow> Inr \<lparr>username = name, password = [], passwordSet = False\<rparr>)
      else
        (case strings_Cut userinfo CHR '':'' of
           (name0, pass0, found) \<Rightarrow>
             (case unescape name0 encodeUserPassword of
                Inl e \<Rightarrow> Inl e
              | Inr name \<Rightarrow>
                  (case unescape pass0 encodeUserPassword of
                     Inl e \<Rightarrow> Inl e
                   | Inr pass \<Rightarrow>
                       Inr \<lparr>username = name, password = pass, passwordSet = True\<rparr>))))"

definition parseAuthority :: "string \<Rightarrow> error + Userinfo option \<times> string" where
  "parseAuthority authority =
     (case strings_LastIndex authority CHR ''@'' of
        None \<Rightarrow>
          (case parseHost authority of
             Inl e \<Rightarrow> Inl e
           | Inr host \<Rightarrow> Inr (None, host))
      | Some i \<Rightarrow>
          (case parseHost (drop (i + 1) authority) of
             Inl e \<Rightarrow> Inl e
           | Inr host \<Rightarrow>
               if \<not> validUserinfo (take i authority)
               then Inl (ErrorString ''net/url: invalid userinfo'')
               else
                 (case parseUserinfo (take i authority) of
                    Inl e \<Rightarrow> Inl e
                  | Inr user \<Rightarrow> Inr (Some user, host))))"

text \<open>
  \<open>parse\<close>: scheme, query, then either an opaque rest, or authority and path.
  \<open>parse_rest\<close> is the part of \<open>parse\<close> after the query has been cut off.
\<close>

definition parse_rest :: "URL \<Rightarrow> string \<Rightarrow> error + URL" where
  "parse_rest url rest =
     (if \<not> strings_HasPrefix rest ''/'' \<and> Scheme url \<noteq> []
        then Inr (url\<lparr>Opaque := rest\<rparr>)
      else if \<not> strings_HasPrefix rest ''/''
              \<and> CHR '':'' \<in> set (fst (strings_Cut rest CHR ''/''))
        then Inl (ErrorString ''first path segment in URL cannot contain colon'')
      else if (Scheme url \<noteq> [] \<or> \<not> strings_HasPrefix rest ''///'')
              \<and> strings_HasPrefix rest ''//''
        then
          (let authority0 = drop 2 rest;
               authority = (case strings_Index authority0 CHR ''/'' of
                              None \<Rightarrow> authority0 | Some i \<Rightarrow> take i authority0);
               rest' = (case strings_Index authority0 CHR ''/'' of
                          None \<Rightarrow> [] | Some i \<Rightarrow> drop i authority0)
           in case parseAuthority authority of
                Inl e \<Rightarrow> Inl e
              | Inr (user, host) \<Rightarrow> setPath (url\<lparr>User := user, Host := host\<rparr>) rest')
      else if Scheme url \<noteq> [] \<and> strings_HasPrefix rest ''/''
        then setPath (url\<lparr>OmitHost := True\<rparr>) rest
      else setPath url rest)"

definition parse :: "string \<Rightarrow> error + URL" where
  "parse rawURL =
     (if stringContainsCTLByte rawURL
        then Inl (ErrorString ''net/url: invalid control character in URL'')
      else if rawURL = ''*'' then Inr (emptyURL\<lparr>Path := ''*''\<rparr>)
      else
        (case getScheme rawURL of
           Inl e \<Rightarrow> Inl e
         | Inr (scheme, rest) \<Rightarrow>
             if rest \<noteq> [] \<and> last rest = CHR ''?'' \<and> count_list rest CHR ''?'' = 1
             then parse_rest (emptyURL\<lparr>Scheme := strings_ToLower scheme, ForceQuery := True\<rparr>)
                    (butlast rest)
             else
               (case strings_Cut rest CHR ''?'' of
                  (rest', query, found) \<Rightarrow>
                    parse_rest (emptyURL\<lparr>Scheme := strings_ToLower scheme, RawQuery := query\<rparr>)
                      rest')))"

text \<open>\<open>url.Parse\<close>: the fragment is cut off first; errors are wrapped with the operation
  and the text that was parsed.\<close>

definition url_Parse :: "string \<Rightarrow> error + URL" where
  "url_Parse rawURL =
     (case strings_Cut rawURL CHR ''#'' of
        (u, frag, found) \<Rightarrow>
          (case parse u of
             Inl e \<Rightarrow> Inl (URLError ''parse'' u e)
           | Inr url \<Rightarrow>
               if frag = [] then Inr url
               else
                 (case setFragment url frag of
                    Inl e \<Rightarrow> Inl (URLError ''parse'' rawURL e)
                  | Inr url' \<Rightarrow> Inr url')))"

subsection \<open>Resolving a reference and printing\<close>

text \<open>
  \<open>resolvePath\<close> joins the reference to the directory of the base and walks the
  elements of the result. \<open>resolvePath_loop\<close> is the walk: \<open>remaining\<close> is the text
  still to be cut, \<open>dst\<close> the builder, which starts as one slash, and \<open>first\<close> says
  that no slash is to be written before the next element. It returns the last
  element cut and the builder.
\<close>

definition resolvePath_step :: "string \<Rightarrow> string \<Rightarrow> bool \<Rightarrow> string \<times> bool" where
  "resolvePath_step elem dst first =
     (if elem = ''.'' then (dst, False)
      else if elem = ''..'' then
        (case strings_LastIndex (drop 1 dst) CHR ''/'' of
           None \<Rightarrow> (''/'', True)
         | Some index \<Rightarrow> (''/'' @ take index (drop 1 dst), first))
      else ((if \<not> first then dst @ ''/'' else dst) @ elem, False))"

function resolvePath_loop :: "string \<Rightarrow> string \<Rightarrow> bool \<Rightarrow> string \<times> string" where
  "resolvePath_loop remaining dst first =
     (case strings_Cut remaining CHR ''/'' of
        (elem, remaining', found) \<Rightarrow>
          (case resolvePath_step elem dst first of
             (dst', first') \<Rightarrow>
               if found then resolvePath_loop remaining' dst' first' else (elem, dst')))"
  by pat_completeness auto
termination
proof (relation "measure (\<lambda>(remaining, dst, first). length remaining)", goal_cases)
  case 1
  show ?case by simp
next
  have shorter: "length (dropWhile (\<lambda>c. c \<noteq> CHR ''/'') s) - Suc 0 < length s"
    if "CHR ''/'' \<in> set s" for s :: string
  proof -
    from that have "dropWhile (\<lambda>c. c \<noteq> CHR ''/'') s \<noteq> []" by simp
    then have "length (dropWhile (\<lambda>c. c \<noteq> CHR ''/'') s) - Suc 0
        < length (dropWhile (\<lambda>c. c \<noteq> CHR ''/'') s)" by simp
    also have "\<dots> \<le> length s" by (rule length_dropWhile_le)
    finally show ?thesis .
  qed
  case 2
  then show ?case by (auto simp: strings_Cut_def Let_def shorter)
qed

declare resolvePath_loop.simps [simp del]

definition resolvePath :: "string \<Rightarrow> string \<Rightarrow> string" where
  "resolvePath base ref =
     (let full =
            (if ref = [] then base
             else if hd ref \<noteq> CHR ''/'' then
               (case strings_LastIndex base CHR ''/'' of
                  None \<Rightarrow> ref
                | Some i \<Rightarrow> take (i + 1) base @ ref)
             else ref)
      in if full = [] then []
         else
           (case resolvePath_loop full ''/'' True of
              (elem, dst) \<Rightarrow>
                let r = (if elem = ''.'' \<or> elem = ''..'' then dst @ ''/'' else dst)
                in if length r > 1 \<and> r ! 1 = CHR ''/'' then drop 1 r else r))"

text \<open>\<open>ResolveReference\<close> calls \<open>setPath\<close> and ignores its error: on an error the
  URL keeps the path it had.\<close>

definition setPath_ignore :: "URL \<Rightarrow> string \<Rightarrow> URL" where
  "setPath_ignore u p = (case setPath u p of Inl e \<Rightarrow> u | Inr u' \<Rightarrow> u')"

definition ResolveReference :: "URL \<Rightarrow> URL \<Rightarrow> URL" where
  "ResolveReference u ref =
     (let url = (if Scheme ref = [] then ref\<lparr>Scheme := Scheme u\<rparr> else ref)
      in if Scheme ref \<noteq> [] \<or> Host ref \<noteq> [] \<or> User ref \<noteq> None
           then setPath_ignore url (resolvePath (EscapedPath ref) [])
         else if Opaque ref \<noteq> []
           then url\<lparr>User := None, Host := [], Path := []\<rparr>
         else
           (let url1 =
                  (if Path ref = [] \<and> \<not> ForceQuery ref \<and> RawQuery ref = []
                   then (let q = url\<lparr>RawQuery := RawQuery u\<rparr>
                         in if Fragment ref = []
                            then q\<lparr>Fragment := Fragment u, RawFragment := RawFragment u\<rparr>
                            else q)
                   else url)
            in if Path ref = [] \<and> Opaque u \<noteq> []
                 then url1\<lparr>Opaque := Opaque u, User := None, Host := [], Path := []\<rparr>
               else setPath_ignore (url1\<lparr>Host := Host u, User := User u\<rparr>)
                      (resolvePath (EscapedPath u) (EscapedPath ref))))"

text \<open>The method \<open>(u *URL) Parse(ref)\<close>: parse the reference, then resolve it.\<close>

definition URL_Parse :: "URL \<Rightarrow> string \<Rightarrow> error + URL" where
  "URL_Parse u ref =
     (case url_Parse ref of
        Inl e \<Rightarrow> Inl e
      | Inr refURL \<Rightarrow> Inr (ResolveReference u refURL))"

definition Userinfo_String :: "Userinfo \<Rightarrow> string" where
  "Userinfo_String ui =
     escape (username ui) encodeUserPassword
     @ (if passwordSet ui then '':'' @ escape (password ui) encodeUserPassword else [])"

definition URL_String :: "URL \<Rightarrow> string" where
  "URL_String u =
     (let buf1 = (if Scheme u \<noteq> [] then Scheme u @ '':'' else []);
          buf2 =
            (if Opaque u \<noteq> [] then buf1 @ Opaque u
             else
               (let buf3 =
                      (if Scheme u \<noteq> [] \<or> Host u \<noteq> [] \<or> User u \<noteq> None then
                         (if OmitHost u \<and> Host u = [] \<and> User u = None then buf1
                          else buf1
                            @ (if Host u \<noteq> [] \<or> Path u \<noteq> [] \<or> User u \<noteq> None then ''//'' else [])
                            @ (case User u of None \<Rightarrow> [] | Some ui \<Rightarrow> Userinfo_String ui @ ''@'')
                            @ (if Host u \<noteq> [] then escape (Host u) encodeHost else []))
                       else buf1);
                    path = EscapedPath u;
                    buf4 = (if path \<noteq> [] \<and> hd path \<noteq> CHR ''/'' \<and> Host u \<noteq> []
                            then buf3 @ ''/'' else buf3);
                    buf5 = (if buf4 = [] \<and> CHR '':'' \<in> set (fst (strings_Cut path CHR ''/''))
                            then buf4 @ ''./'' else buf4)
                in buf5 @ path));
          buf6 = (if ForceQuery u \<or> RawQuery u \<noteq> [] then buf2 @ ''?'' @ RawQuery u else buf2)
      in if Fragment u \<noteq> [] then buf6 @ ''#'' @ EscapedFragment u else buf6)"

section \<open>The world the program runs in\<close>

text \<open>
  The program reads the network and writes files, the console and the log. The
  mutable part is the record \<open>world\<close>: the files by path, the GET requests issued
  so far, the text printed on standard output and the lines logged. What the
  network and the file system answer is the record \<open>env\<close>; every answer may depend
  on the number of requests issued before, so the environment may change between
  two entries.
\<close>

record response =
  Status :: string
  StatusCode :: int
  Body :: string
  BodyErr :: "error option"

text \<open>
  \<open>Body\<close> holds the bytes the body delivers; \<open>BodyErr\<close> is the error that reading
  meets after them (\<open>None\<close> when the body ends normally).
\<close>

datatype log_line =
    Usage
  | FatalMkdirAll error
  | FatalPageURL error
  | ProfileDirNotFound
  | FatalChromedp error
  | SrcParseFailed string error
  | DownloadFailed string error

record world =
  files :: "string \<Rightarrow> string option"
  requests :: "string list"
  stdout :: string
  logged :: "log_line list"

record env =
  http_Get :: "nat \<Rightarrow> string \<Rightarrow> error + response"
  os_Create :: "nat \<Rightarrow> string \<Rightarrow> error option"
  write_limit :: "nat \<Rightarrow> string \<Rightarrow> (nat \<times> error) option"
  os_MkdirAll :: "string \<Rightarrow> error option"
  chromeProfileDir :: string
  chromedp_Run :: "string \<Rightarrow> string \<Rightarrow> error + string list"

text \<open>
  \<open>write_limit\<close> says after how many bytes writing to a file fails, and with which
  error; \<open>None\<close> when every write succeeds. \<open>chromeProfileDir\<close> is what
  \<open>getChromeProfileDir\<close> returns on the host, and \<open>chromedp_Run\<close> is the browser
  session: started with that profile directory, sent to the page, it answers with
  the \<open>src\<close> values of the \<open>img\<close> elements or with an error.
\<close>

text \<open>
  \<open>io.Copy\<close> from the body to the file: the bytes written and the error returned.
  A write that fails leaves the bytes written before it; a failed read leaves
  all bytes read.
\<close>

definition io_Copy :: "(nat \<times> error) option \<Rightarrow> response \<Rightarrow> string \<times> error option" where
  "io_Copy limit resp =
     (case limit of
        None \<Rightarrow> (Body resp, BodyErr resp)
      | Some (n, e) \<Rightarrow>
          if n < length (Body resp) then (take n (Body resp), Some e)
          else (Body resp, BodyErr resp))"

text \<open>The text before the status in the error of \<open>downloadFile\<close>, as UTF-8 bytes.\<close>

definition statusNotOKPrefix :: string where
  "statusNotOKPrefix = map char_of
     [72, 84, 84, 80, 227, 130, 185, 227, 131, 134, 227, 131, 188, 227, 130, 191, 227, 130,
      185, 227, 129, 140, 79, 75, 227, 129, 167, 227, 129, 175, 227, 129, 130, 227, 130, 138,
      227, 129, 190, 227, 129, 155, 227, 130, 147, 58, 32 :: nat]"

section \<open>The program\<close>

text \<open>\<open>downloadFile\<close> returns the new world and the error (\<open>None\<close> is \<open>nil\<close>).\<close>

definition downloadFile ::
  "env \<Rightarrow> world \<Rightarrow> string \<Rightarrow> string \<Rightarrow> string \<Rightarrow> world \<times> error option" where
  "downloadFile ev w urlStr outDir fileName =
     (let t = length (requests w);
          w1 = w\<lparr>requests := requests w @ [urlStr]\<rparr>
      in case http_Get ev t urlStr of
           Inl err \<Rightarrow> (w1, Some err)
         | Inr resp \<Rightarrow>
             if StatusCode resp \<noteq> 200
             then (w1, Some (ErrorString (statusNotOKPrefix @ Status resp)))
             else
               (let filePath = filepath_Join [outDir, fileName]
                in case os_Create ev t filePath of
                     Some err \<Rightarrow> (w1, Some err)
                   | None \<Rightarrow>
                       (case io_Copy (write_limit ev t filePath) resp of
                          (written, err) \<Rightarrow>
                            (w1\<lparr>files := (files w1)(filePath \<mapsto> written)\<rparr>, err))))"

text \<open>The body of the loop of \<open>main\<close> for the entry \<open>src\<close> at the 0-based index \<open>i\<close>.\<close>

definition processEntry :: "env \<Rightarrow> URL \<Rightarrow> string \<Rightarrow> world \<Rightarrow> nat \<Rightarrow> string \<Rightarrow> world" where
  "processEntry ev base outDir w i src =
     (if src = [] then w
      else
        (case URL_Parse base src of
           Inl err \<Rightarrow> w\<lparr>logged := logged w @ [SrcParseFailed src err]\<rparr>
         | Inr imgURL \<Rightarrow>
             (let w1 = w\<lparr>stdout := stdout w @ ''Image '' @ itoa (i + 1) @ '': ''
                                   @ URL_String imgURL @ [CHR 0x0A]\<rparr>;
                  fileName = deriveName (Path imgURL) i
              in case downloadFile ev w1 (URL_String imgURL) outDir fileName of
                   (w2, None) \<Rightarrow> w2
                 | (w2, Some err) \<Rightarrow>
                     w2\<lparr>logged := logged w2 @ [DownloadFailed (URL_String imgURL) err]\<rparr>)))"

fun imageLoop :: "env \<Rightarrow> URL \<Rightarrow> string \<Rightarrow> world \<Rightarrow> nat \<Rightarrow> string list \<Rightarrow> world" where
  "imageLoop ev base outDir w i [] = w"
| "imageLoop ev base outDir w i (src # srcs) =
     imageLoop ev base outDir (processEntry ev base outDir w i src) (i + 1) srcs"


section \<open>The standard algorithm for resolving a reference\<close>













section \<open>The URL Resolver in the words of the specification\<close>

text \<open>
  The specification speaks of a resolver that answers "not-ok" or with the
  absolute URL. In the program it is the first part of the loop body: the test
  for the empty string, then \<open>base.Parse\<close>. \<open>resolveEntry\<close> is that part alone,
  with \<open>None\<close> for "not-ok".
\<close>

definition resolveEntry :: "URL \<Rightarrow> string \<Rightarrow> URL option" where
  "resolveEntry base src =
     (if src = [] then None
      else (case URL_Parse base src of Inl err \<Rightarrow> None | Inr imgURL \<Rightarrow> Some imgURL))"

section \<open>The Name Deriver in the words of the specification\<close>

text \<open>
  The specification describes the Name Deriver through the final path segment,
  "the component after the last slash". \<open>spec_finalSegment\<close> is that component and
  \<open>spec_deriveName\<close> the rule as the specification words it; both are compared
  with \<open>deriveName\<close> below.
\<close>

definition spec_finalSegment :: "string \<Rightarrow> string" where
  "spec_finalSegment path = rev (takeWhile (\<lambda>c. c \<noteq> CHR ''/'') (rev path))"

definition spec_deriveName :: "string \<Rightarrow> nat \<Rightarrow> string" where
  "spec_deriveName path i =
     (let seg = spec_finalSegment path
      in if seg \<noteq> [] \<and> seg \<noteq> ''/'' \<and> seg \<noteq> ''.'' then seg
         else ''image_'' @ itoa (i + 1) @ getFileExtension path)"

text \<open>
  The file name that a run derives for the entry \<open>src\<close> at index \<open>i\<close> of the page
  \<open>pageURL\<close>: \<open>main\<close> parses the page URL, the loop resolves the entry against it
  and derives the name from the path of the result.
\<close>

definition entryFileName :: "string \<Rightarrow> string \<Rightarrow> nat \<Rightarrow> error + string" where
  "entryFileName pageURL src i =
     (case url_Parse pageURL of
        Inl err \<Rightarrow> Inl err
      | Inr base \<Rightarrow>
          (case URL_Parse base src of
             Inl err \<Rightarrow> Inl err
           | Inr imgURL \<Rightarrow> Inr (deriveName (Path imgURL) i)))"

section \<open>Paths as lists of elements\<close>

text \<open>
  For the proofs about paths, a path is read as the list of its elements, the
  texts between the slashes. \<open>splitSlash\<close> is that list; it is what the loop of
  \<open>resolvePath\<close> cuts off one by one. \<open>walk\<close> is the loop of \<open>resolvePath\<close> on such
  a list, and \<open>finish\<close> is what \<open>resolvePath\<close> does with the result of the loop.
\<close>

fun splitSlash :: "string \<Rightarrow> string list" where
  "splitSlash [] = [[]]"
| "splitSlash (c # cs) =
     (if c = CHR ''/'' then [] # splitSlash cs
      else (c # hd (splitSlash cs)) # tl (splitSlash cs))"

fun walk :: "string list \<Rightarrow> string \<Rightarrow> bool \<Rightarrow> string \<times> string" where
  "walk [] dst first = ([], dst)"
| "walk [e] dst first = (e, fst (resolvePath_step e dst first))"
| "walk (e # es) dst first =
     walk es (fst (resolvePath_step e dst first)) (snd (resolvePath_step e dst first))"

definition finish :: "string \<times> string \<Rightarrow> string" where
  "finish p =
     (let r = (if fst p = ''.'' \<or> fst p = ''..'' then snd p @ ''/'' else snd p)
      in if length r > 1 \<and> r ! 1 = CHR ''/'' then drop 1 r else r)"






section \<open>Example environments\<close>

definition emptyWorld :: world where
  "emptyWorld = \<lparr>files = (\<lambda>p. None), requests = [], stdout = [], logged = []\<rparr>"

definition response200 :: response where
  "response200 = \<lparr>Status = ''200 OK'', StatusCode = 200, Body = ''PNGDATA'', BodyErr = None\<rparr>"

definition response404 :: response where
  "response404 = \<lparr>Status = ''404 Not Found'', StatusCode = 404, Body = ''gone'', BodyErr = None\<rparr>"

text \<open>A server that answers 200 to \<open>/a.png\<close> and 404 to everything else, on a host
  where every file operation succeeds.\<close>

definition envServing :: env where
  "envServing = \<lparr>
     http_Get = (\<lambda>t u. if u = ''https://site.test/a.png'' then Inr response200
                         else Inr response404),
     os_Create = (\<lambda>t p. None),
     write_limit = (\<lambda>t p. None),
     os_MkdirAll = (\<lambda>p. None),
     chromeProfileDir = ''/home/u/.config/google-chrome/Default'',
     chromedp_Run = (\<lambda>d p. Inr [''/a.png'', [], ''missing.png'', '':bad''])\<rparr>"

text \<open>The same server seen from a host whose disk is full after three bytes.\<close>

definition envDiskFull :: env where
  "envDiskFull = envServing\<lparr>
     write_limit := (\<lambda>t p. Some (3, ErrorString ''no space left on device''))\<rparr>"

text \<open>The page of the examples, parsed.\<close>

definition pageBase :: URL where
  "pageBase = emptyURL\<lparr>Scheme := ''https'', Host := ''site.test'', Path := ''/page''\<rparr>"


section \<open>Properties\<close>

subsection \<open>The extension helper\<close>

lemma ext_scan_skip:
  "CHR ''/'' \<notin> set suf \<Longrightarrow> CHR ''.'' \<notin> set suf \<Longrightarrow>
   ext_scan (rev suf @ rest) acc = ext_scan rest (suf @ acc)"
  by (induction suf arbitrary: acc rule: rev_induct) (auto simp: isPathSeparator_def)

lemma filepath_Ext_dot:
  assumes "CHR ''/'' \<notin> set suf" "CHR ''.'' \<notin> set suf"
  shows "filepath_Ext (front @ CHR ''.'' # suf) = CHR ''.'' # suf"
  using ext_scan_skip [OF assms, of "CHR ''.'' # rev front" "[]"]
  by (simp add: filepath_Ext_def isPathSeparator_def)

lemma filepath_Ext_none:
  assumes "CHR ''/'' \<notin> set seg" "CHR ''.'' \<notin> set seg" "dir = [] \<or> last dir = CHR ''/''"
  shows "filepath_Ext (dir @ seg) = []"
proof -
  have "ext_scan (rev dir) seg = []"
  proof (cases dir rule: rev_cases)
    case Nil
    then show ?thesis by simp
  next
    case (snoc ys y)
    with assms(3) show ?thesis by (simp add: isPathSeparator_def)
  qed
  with ext_scan_skip [OF assms(1,2), of "rev dir" "[]"] show ?thesis
    by (simp add: filepath_Ext_def)
qed

text \<open>
  Claim C8. Let \<open>seg\<close> be the final segment of \<open>path\<close>, that is, what follows the
  last slash (\<open>path = dir @ seg\<close> where \<open>dir\<close> is empty or ends with a slash and
  \<open>seg\<close> has no slash). If \<open>seg\<close> has a dot, \<open>getFileExtension\<close> returns the
  substring of \<open>seg\<close> from its last dot, dot included and bytes unchanged (so the
  case is preserved, and a segment that ends with a dot has the extension \<open>.\<close>);
  if \<open>seg\<close> has no dot, it returns \<open>.jpg\<close>.
\<close>

theorem getFileExtension_final_segment:
  assumes "path = dir @ seg" and "dir = [] \<or> last dir = CHR ''/''" and "CHR ''/'' \<notin> set seg"
  shows "(\<forall>stem suf. seg = stem @ CHR ''.'' # suf \<and> CHR ''.'' \<notin> set suf
            \<longrightarrow> getFileExtension path = CHR ''.'' # suf)
         \<and> (CHR ''.'' \<notin> set seg \<longrightarrow> getFileExtension path = ''.jpg'')"
proof (intro conjI allI impI)
  fix stem suf
  assume h: "seg = stem @ CHR ''.'' # suf \<and> CHR ''.'' \<notin> set suf"
  with assms(3) have "CHR ''/'' \<notin> set suf" by simp
  with h have "filepath_Ext ((dir @ stem) @ CHR ''.'' # suf) = CHR ''.'' # suf"
    by (intro filepath_Ext_dot) simp_all
  with h assms(1) show "getFileExtension path = CHR ''.'' # suf"
    by (simp add: getFileExtension_def)
next
  assume "CHR ''.'' \<notin> set seg"
  with assms show "getFileExtension path = ''.jpg''"
    by (simp add: getFileExtension_def filepath_Ext_none)
qed

theorem getFileExtension_final_segment_witness:
  "getFileExtension ''img/photo.PNG'' = ''.PNG'' \<and> getFileExtension ''img.d/photo'' = ''.jpg''"
proof -
  have a: "''img/photo.PNG'' = ''img/'' @ ''photo.PNG''" by simp
  have b: "''img.d/photo'' = ''img.d/'' @ ''photo''" by simp
  have s1: "''img/'' = [] \<or> last ''img/'' = CHR ''/''" by simp
  have s2: "''img.d/'' = [] \<or> last ''img.d/'' = CHR ''/''" by simp
  have n1: "CHR ''/'' \<notin> set ''photo.PNG''" by simp
  have n2: "CHR ''/'' \<notin> set ''photo''" by simp
  have c: "''photo.PNG'' = ''photo'' @ CHR ''.'' # ''PNG'' \<and> CHR ''.'' \<notin> set ''PNG''" by simp
  have d: "CHR ''.'' \<notin> set ''photo''" by simp
  note t1 = getFileExtension_final_segment [OF a s1 n1, THEN conjunct1, rule_format, OF c]
  note t2 = getFileExtension_final_segment [OF b s2 n2, THEN conjunct2, rule_format, OF d]
  from t1 t2 show ?thesis by simp
qed

subsection \<open>The base name and the Name Deriver\<close>

lemma filepath_Base_nonempty: "filepath_Base p \<noteq> []"
  by (simp add: filepath_Base_def Let_def)

lemma filepath_Base_trailing:
  assumes "p \<noteq> []"
  shows "filepath_Base (p @ ''/'') = filepath_Base p"
  using assms by (simp add: filepath_Base_def isPathSeparator_def)

text \<open>
  Claim C10. \<open>filepath.Base\<close> never returns the empty string: it returns a dot for
  the empty path and ignores a trailing slash of any other path. So the test
  \<open>fileName == ""\<close> of the loop never holds, and the Name Deriver synthesizes a name
  exactly when the base name is a slash or a dot; otherwise it returns the base name.
\<close>

theorem base_name_never_empty:
  "filepath_Base p \<noteq> []
   \<and> filepath_Base [] = ''.''
   \<and> (p \<noteq> [] \<longrightarrow> filepath_Base (p @ ''/'') = filepath_Base p)
   \<and> deriveName p i =
       (if filepath_Base p = ''/'' \<or> filepath_Base p = ''.''
        then ''image_'' @ itoa (i + 1) @ getFileExtension p
        else filepath_Base p)"
  using filepath_Base_nonempty [of p] filepath_Base_trailing [of p]
  by (simp add: deriveName_def Let_def) (simp add: filepath_Base_def)

theorem base_name_never_empty_witness:
  "filepath_Base ''/a/b'' \<noteq> [] \<and> filepath_Base (''/a/b'' @ ''/'') = filepath_Base ''/a/b''
   \<and> deriveName ''/a/b'' 0 = filepath_Base ''/a/b''"
proof -
  have ne: "''/a/b'' \<noteq> []" by simp
  have b: "filepath_Base ''/a/b'' = ''b''"
    by (simp add: filepath_Base_def isPathSeparator_def)
  from base_name_never_empty [of "''/a/b''" 0] ne b show ?thesis by simp
qed

subsection \<open>The Fetcher\<close>

text \<open>
  Claim C2. When the GET request is answered with a status other than 200,
  \<open>downloadFile\<close> returns the error whose text ends with the status text of the
  response, and nothing changes but the record of the request: no file is
  created and every file is as before.
\<close>

theorem downloadFile_not_200:
  assumes "http_Get ev (length (requests w)) urlStr = Inr resp" and "StatusCode resp \<noteq> 200"
  shows "downloadFile ev w urlStr outDir fileName
           = (w\<lparr>requests := requests w @ [urlStr]\<rparr>,
              Some (ErrorString (statusNotOKPrefix @ Status resp)))
         \<and> files (fst (downloadFile ev w urlStr outDir fileName)) = files w"
  using assms by (simp add: downloadFile_def Let_def)

theorem downloadFile_not_200_witness:
  "downloadFile envServing emptyWorld ''https://site.test/missing.png'' ''out'' ''missing.png''
     = (emptyWorld\<lparr>requests := [''https://site.test/missing.png'']\<rparr>,
        Some (ErrorString (statusNotOKPrefix @ ''404 Not Found'')))"
proof -
  have g: "http_Get envServing (length (requests emptyWorld)) ''https://site.test/missing.png''
             = Inr response404"
    by (simp add: envServing_def)
  have s: "StatusCode response404 \<noteq> 200" by (simp add: response404_def)
  from downloadFile_not_200 [OF g s, of "''out''" "''missing.png''"]
  show ?thesis by (simp add: emptyWorld_def response404_def)
qed

text \<open>
  Claim C1, as stated, fails: a response with status 200 does not make
  \<open>downloadFile\<close> succeed. On the host with the full disk the body
  \<open>PNGDATA\<close> is served with status 200, \<open>downloadFile\<close> returns the error of the
  write, and the file holds \<open>PNG\<close> only.
\<close>

theorem downloadFile_200_write_fails:
  "StatusCode response200 = 200
   \<and> http_Get envDiskFull 0 ''https://site.test/a.png'' = Inr response200
   \<and> snd (downloadFile envDiskFull emptyWorld ''https://site.test/a.png'' ''out'' ''a.png'')
       = Some (ErrorString ''no space left on device'')
   \<and> files (fst (downloadFile envDiskFull emptyWorld ''https://site.test/a.png'' ''out'' ''a.png''))
       ''out/a.png'' = Some ''PNG''
   \<and> Body response200 = ''PNGDATA''"
  by code_simp

text \<open>
  Claim C1, amended. When the GET request is answered with status 200, the file
  at \<open>filepath.Join(outDir, fileName)\<close> can be created, no write fails before
  the body is written and reading the body meets no error, then \<open>downloadFile\<close>
  returns no error, the file at that path holds exactly the bytes of the body
  (whatever it held before), and all other files are unchanged.
\<close>

theorem downloadFile_200_roundtrip:
  assumes "http_Get ev (length (requests w)) urlStr = Inr resp" and "StatusCode resp = 200"
    and "os_Create ev (length (requests w)) (filepath_Join [outDir, fileName]) = None"
    and "\<forall>n e. write_limit ev (length (requests w)) (filepath_Join [outDir, fileName]) = Some (n, e)
           \<longrightarrow> length (Body resp) \<le> n"
    and "BodyErr resp = None"
  shows "snd (downloadFile ev w urlStr outDir fileName) = None
         \<and> files (fst (downloadFile ev w urlStr outDir fileName))
             = (files w)(filepath_Join [outDir, fileName] \<mapsto> Body resp)"
  using assms
  by (auto simp: downloadFile_def Let_def io_Copy_def split: option.splits prod.splits)

theorem downloadFile_200_roundtrip_witness:
  "snd (downloadFile envServing emptyWorld ''https://site.test/a.png'' ''out'' ''a.png'') = None
   \<and> files (fst (downloadFile envServing emptyWorld ''https://site.test/a.png'' ''out'' ''a.png''))
        ''out/a.png'' = Some ''PNGDATA''"
proof -
  have j: "filepath_Join [''out'', ''a.png''] = ''out/a.png''" by code_simp
  have g: "http_Get envServing (length (requests emptyWorld)) ''https://site.test/a.png''
             = Inr response200"
    by (simp add: envServing_def)
  have s: "StatusCode response200 = 200" by (simp add: response200_def)
  have c: "os_Create envServing (length (requests emptyWorld)) (filepath_Join [''out'', ''a.png'']) = None"
    by (simp add: envServing_def)
  have l: "\<forall>n e. write_limit envServing (length (requests emptyWorld)) (filepath_Join [''out'', ''a.png''])
              = Some (n, e) \<longrightarrow> length (Body response200) \<le> n"
    by (simp add: envServing_def)
  have b: "BodyErr response200 = None" by (simp add: response200_def)
  from downloadFile_200_roundtrip [OF g s c l b] j
  show ?thesis by (simp add: response200_def)
qed

subsection \<open>The loop\<close>

text \<open>
  Claim C5. An empty source string is skipped silently: the resolver answers
  "not-ok", and the loop body leaves the world as it is (nothing printed, nothing
  logged, no request issued, no file written) and goes on with the next entry.
\<close>

theorem empty_src_skipped:
  "resolveEntry base [] = None
   \<and> processEntry ev base outDir w i [] = w
   \<and> imageLoop ev base outDir w i ([] # srcs) = imageLoop ev base outDir w (i + 1) srcs"
  by (simp add: processEntry_def resolveEntry_def)

theorem empty_src_skipped_witness:
  "requests (imageLoop envServing emptyURL ''out'' emptyWorld 0 [[], []]) = []
   \<and> stdout (imageLoop envServing emptyURL ''out'' emptyWorld 0 [[], []]) = []
   \<and> logged (imageLoop envServing emptyURL ''out'' emptyWorld 0 [[], []]) = []"
  using empty_src_skipped [of emptyURL envServing "''out''" emptyWorld 0 "[[]]"]
    empty_src_skipped [of emptyURL envServing "''out''" emptyWorld 1 "[]"]
  by (simp add: emptyWorld_def)

lemma downloadFile_fields:
  assumes "downloadFile ev w u d f = (w2, r)"
  shows "requests w2 = requests w @ [u] \<and> stdout w2 = stdout w \<and> logged w2 = logged w"
  using assms
  by (auto simp: downloadFile_def Let_def split: sum.splits option.splits prod.splits if_splits)







lemma processEntry_stdout:
  assumes "resolveEntry base src = Some u"
  shows "stdout (processEntry ev base outDir w i src)
           = stdout w @ ''Image '' @ itoa (i + 1) @ '': '' @ URL_String u @ [CHR 0x0A]"
proof -
  from assms(1) have p: "src \<noteq> []" "URL_Parse base src = Inr u"
    by (auto simp: resolveEntry_def split: if_splits sum.splits)
  obtain w2 r where d: "downloadFile ev
      (w\<lparr>stdout := stdout w @ ''Image '' @ itoa (i + 1) @ '': '' @ URL_String u @ [CHR 0x0A]\<rparr>)
      (URL_String u) outDir (deriveName (Path u) i) = (w2, r)"
    by (cases "downloadFile ev
      (w\<lparr>stdout := stdout w @ ''Image '' @ itoa (i + 1) @ '': '' @ URL_String u @ [CHR 0x0A]\<rparr>)
      (URL_String u) outDir (deriveName (Path u) i)")
  from downloadFile_fields [OF d]
  have "stdout w2 = stdout w @ ''Image '' @ itoa (i + 1) @ '': '' @ URL_String u @ [CHR 0x0A]"
    by simp
  with p d show ?thesis by (cases r) (simp_all add: processEntry_def Let_def)
qed

subsection \<open>The Name Deriver\<close>

lemma filepath_Base_last_element:
  assumes "path = dir @ seg @ slashes" and "dir = [] \<or> last dir = CHR ''/''"
    and "seg \<noteq> []" and "CHR ''/'' \<notin> set seg" and "set slashes \<subseteq> {CHR ''/''}"
  shows "filepath_Base path = seg"
proof -
  have r: "rev path = rev slashes @ rev seg @ rev dir" using assms(1) by simp
  have d: "dropWhile isPathSeparator (rev path) = rev seg @ rev dir"
  proof -
    have "dropWhile isPathSeparator (rev slashes @ (rev seg @ rev dir))
            = dropWhile isPathSeparator (rev seg @ rev dir)"
      using assms(5) by (intro dropWhile_append2) (auto simp: isPathSeparator_def)
    also have "\<dots> = rev seg @ rev dir"
      using assms(3,4) by (cases seg rule: rev_cases) (auto simp: isPathSeparator_def)
    finally show ?thesis using r by simp
  qed
  have t: "takeWhile (\<lambda>c. \<not> isPathSeparator c) (rev seg @ rev dir) = rev seg"
  proof (cases dir rule: rev_cases)
    case Nil
    then show ?thesis using assms(4) by (auto simp: isPathSeparator_def)
  next
    case (snoc ys y)
    with assms(2) have "y = CHR ''/''" by simp
    with snoc show ?thesis using assms(4)
      by (auto simp: isPathSeparator_def takeWhile_tail)
  qed
  from assms(1,3) have "path \<noteq> []" by simp
  then show ?thesis using d t assms(3) by (simp add: filepath_Base_def Let_def)
qed

lemma filepath_Base_slashes:
  assumes "set path \<subseteq> {CHR ''/''}"
  shows "filepath_Base path = (if path = [] then ''.'' else ''/'')"
proof -
  have "dropWhile isPathSeparator (rev path) = []"
    using assms by (auto simp: isPathSeparator_def)
  then show ?thesis by (simp add: filepath_Base_def Let_def del: dropWhile_eq_Nil_conv)
qed

lemma getFileExtension_slashes:
  assumes "set slashes \<subseteq> {CHR ''/''}" "slashes \<noteq> []"
  shows "getFileExtension (p @ slashes) = ''.jpg''"
proof -
  from assms obtain ys where "slashes = ys @ ''/''"
    by (cases slashes rule: rev_cases) auto
  then show ?thesis
    by (simp add: getFileExtension_def filepath_Ext_def isPathSeparator_def)
qed

text \<open>
  Claim C6, as stated, fails: for a path that ends with a slash the component
  after the last slash is empty, so the rule of the specification synthesizes a
  name, while \<open>deriveName\<close> returns the element before the trailing slash.
\<close>

theorem deriveName_differs_from_spec:
  "spec_finalSegment ''/gallery/'' = []
   \<and> spec_deriveName ''/gallery/'' 0 = ''image_1.jpg''
   \<and> deriveName ''/gallery/'' 0 = ''gallery''"
  by code_simp

text \<open>
  Claim C6, amended. \<open>deriveName\<close> ignores trailing slashes: it returns the last
  non-empty element of the path (what stands between the last slash before it,
  if any, and the trailing slashes), unless that element is a dot; for a dot, and
  for a path that is empty or consists of slashes only, it returns
  \<open>image_<index+1><ext>\<close>, where \<open>ext\<close> is \<open>getFileExtension\<close> of the path
  (\<open>.jpg\<close> for the empty path and for slashes only). The number is the one
  of the console line \<open>Image <index+1>: <url>\<close> that the loop prints for the entry.
\<close>

theorem deriveName_last_element:
  "(path = dir @ seg @ slashes \<and> (dir = [] \<or> last dir = CHR ''/'') \<and> seg \<noteq> []
      \<and> CHR ''/'' \<notin> set seg \<and> set slashes \<subseteq> {CHR ''/''}
     \<longrightarrow> deriveName path i
           = (if seg = ''.'' then ''image_'' @ itoa (i + 1) @ getFileExtension path else seg))
   \<and> (set path \<subseteq> {CHR ''/''} \<longrightarrow> deriveName path i = ''image_'' @ itoa (i + 1) @ ''.jpg'')
   \<and> (resolveEntry base src = Some u
     \<longrightarrow> stdout (processEntry ev base outDir w i src)
           = stdout w @ ''Image '' @ itoa (i + 1) @ '': '' @ URL_String u @ [CHR 0x0A])"
proof (intro conjI impI)
  assume h: "path = dir @ seg @ slashes \<and> (dir = [] \<or> last dir = CHR ''/'') \<and> seg \<noteq> []
      \<and> CHR ''/'' \<notin> set seg \<and> set slashes \<subseteq> {CHR ''/''}"
  with filepath_Base_last_element [of path dir seg slashes]
  have b: "filepath_Base path = seg" by blast
  from h have "seg \<noteq> ''/''" by auto
  with b h show "deriveName path i
           = (if seg = ''.'' then ''image_'' @ itoa (i + 1) @ getFileExtension path else seg)"
    by (simp add: deriveName_def)
next
  assume h: "set path \<subseteq> {CHR ''/''}"
  have e: "getFileExtension path = ''.jpg''"
  proof (cases "path = []")
    case True
    then show ?thesis by (simp add: getFileExtension_def filepath_Ext_def)
  next
    case False
    with getFileExtension_slashes [OF h, of "[]"] show ?thesis by simp
  qed
  from filepath_Base_slashes [OF h] e
  show "deriveName path i = ''image_'' @ itoa (i + 1) @ ''.jpg''"
    by (auto simp: deriveName_def)
next
  assume "resolveEntry base src = Some u"
  then show "stdout (processEntry ev base outDir w i src)
           = stdout w @ ''Image '' @ itoa (i + 1) @ '': '' @ URL_String u @ [CHR 0x0A]"
    by (rule processEntry_stdout)
qed

theorem deriveName_last_element_witness:
  "deriveName ''/img/photo.PNG'' 4 = ''photo.PNG''
   \<and> deriveName ''/gallery/'' 0 = ''gallery''
   \<and> deriveName ''//'' 6 = ''image_7.jpg''"
proof -
  have a: "''/img/photo.PNG'' = ''/img/'' @ ''photo.PNG'' @ [] \<and> (''/img/'' = [] \<or> last ''/img/'' = CHR ''/'')
     \<and> ''photo.PNG'' \<noteq> [] \<and> CHR ''/'' \<notin> set ''photo.PNG'' \<and> set [] \<subseteq> {CHR ''/''}" by simp
  have b: "''/gallery/'' = ''/'' @ ''gallery'' @ ''/'' \<and> (''/'' = [] \<or> last ''/'' = CHR ''/'')
     \<and> ''gallery'' \<noteq> [] \<and> CHR ''/'' \<notin> set ''gallery'' \<and> set ''/'' \<subseteq> {CHR ''/''}" by simp
  have c: "set ''//'' \<subseteq> {CHR ''/''}" by simp
  have n: "itoa 7 = ''7''" by code_simp
  note t1 = deriveName_last_element [THEN conjunct1, rule_format, OF a]
  note t2 = deriveName_last_element [THEN conjunct1, rule_format, OF b]
  note t3 = deriveName_last_element [THEN conjunct2, THEN conjunct1, rule_format, OF c, of 6]
  from t1 [of 4] t2 [of 0] t3 n show ?thesis by simp
qed

subsection \<open>Isolation of failures\<close>




subsection \<open>The elements of a path and the loop of \<open>resolvePath\<close>\<close>

lemma takeWhile_before: "c \<notin> set e \<Longrightarrow> takeWhile (\<lambda>x. x \<noteq> c) (e @ c # rest) = e"
  by (induction e) auto

lemma dropWhile_before: "c \<notin> set e \<Longrightarrow> dropWhile (\<lambda>x. x \<noteq> c) (e @ c # rest) = c # rest"
  by (induction e) auto

lemma takeWhile_absent: "c \<notin> set e \<Longrightarrow> takeWhile (\<lambda>x. x \<noteq> c) e = e"
  by (induction e) auto

lemma splitSlash_nonempty [simp]: "splitSlash s \<noteq> []"
  by (induction s) auto

lemma splitSlash_no_slash:
  "CHR ''/'' \<notin> set e \<Longrightarrow> splitSlash e = [e]"
  by (induction e) auto

lemma splitSlash_elem:
  "CHR ''/'' \<notin> set e \<Longrightarrow> splitSlash (e @ CHR ''/'' # rest) = e # splitSlash rest"
  by (induction e) auto

lemma splitSlash_append:
  "splitSlash (a @ CHR ''/'' # b) = splitSlash a @ splitSlash b"
proof (induction a)
  case Nil
  show ?case by simp
next
  case (Cons c a)
  show ?case
  proof (cases "c = CHR ''/''")
    case True
    then show ?thesis using Cons by simp
  next
    case False
    obtain x xs where s: "splitSlash a = x # xs"
      using splitSlash_nonempty [of a] by (cases "splitSlash a") auto
    with False Cons show ?thesis by simp
  qed
qed


lemma splitSlash_Cut:
  "splitSlash s = (case strings_Cut s CHR ''/'' of
      (elem, rest, found) \<Rightarrow> if found then elem # splitSlash rest else [elem])"
proof (cases "CHR ''/'' \<in> set s")
  case False
  show ?thesis unfolding strings_Cut_def Let_def takeWhile_absent [OF False]
    using False by (simp add: splitSlash_no_slash)
next
  case True
  then obtain e rest where s: "s = e @ CHR ''/'' # rest" "CHR ''/'' \<notin> set e"
    by (meson split_list_first)
  have c: "strings_Cut s CHR ''/'' = (e, rest, True)"
    unfolding strings_Cut_def Let_def s(1) takeWhile_before [OF s(2)] dropWhile_before [OF s(2)]
    by simp
  from s show ?thesis unfolding c by (simp add: splitSlash_elem)
qed

lemma resolvePath_loop_walk:
  "resolvePath_loop s dst first = walk (splitSlash s) dst first"
proof (induction s dst first rule: resolvePath_loop.induct)
  case (1 remaining dst first)
  obtain elem rest found where c: "strings_Cut remaining CHR ''/'' = (elem, rest, found)"
    by (cases "strings_Cut remaining CHR ''/''") auto
  obtain dst' first' where st: "resolvePath_step elem dst first = (dst', first')"
    by (cases "resolvePath_step elem dst first") auto
  show ?case
  proof (cases found)
    case True
    with c have sp: "splitSlash remaining = elem # splitSlash rest"
      using splitSlash_Cut [of remaining] by simp
    obtain x xs where xs: "splitSlash rest = x # xs"
      using splitSlash_nonempty [of rest] by (cases "splitSlash rest") auto
    from 1 [OF c [symmetric] refl st [symmetric] True]
    have "resolvePath_loop rest dst' first' = walk (splitSlash rest) dst' first'" .
    with True c st sp xs show ?thesis
      by (simp add: resolvePath_loop.simps [of remaining])
  next
    case False
    with c have sp: "splitSlash remaining = [elem]"
      using splitSlash_Cut [of remaining] by simp
    with False c st show ?thesis
      by (simp add: resolvePath_loop.simps [of remaining])
  qed
qed


lemma strings_LastIndex_Some:
  assumes "strings_LastIndex s c = Some i"
  shows "i < length s \<and> s ! i = c \<and> c \<notin> set (drop (i + 1) s)"
proof -
  from assms have m: "c \<in> set s"
    and i: "i = length s - 1 - length (takeWhile (\<lambda>x. x \<noteq> c) (rev s))"
    by (auto simp: strings_LastIndex_def split: if_splits)
  from m have "c \<in> set (rev s)" by simp
  then obtain t r where r: "rev s = t @ c # r" "c \<notin> set t" by (meson split_list_first)
  then have s: "s = rev r @ c # rev t" by (metis rev_append rev_rev_ident rev.simps(2) append_Cons append_Nil append_assoc)
  from r have "takeWhile (\<lambda>x. x \<noteq> c) (rev s) = t" by (simp add: takeWhile_before)
  with i s have "i = length r" by simp
  with s r(2) show ?thesis by (simp add: nth_append)
qed

lemma resolvePath_step_rooted:
  assumes "dst \<noteq> []" "hd dst = CHR ''/''"
  shows "fst (resolvePath_step e dst first) \<noteq> [] \<and> hd (fst (resolvePath_step e dst first)) = CHR ''/''"
  using assms by (auto simp: resolvePath_step_def split: option.splits)

lemma walk_append:
  assumes "ys \<noteq> []" "dst \<noteq> []" "hd dst = CHR ''/''"
  shows "\<exists>dst' first'. dst' \<noteq> [] \<and> hd dst' = CHR ''/''
           \<and> walk (xs @ ys) dst first = walk ys dst' first'"
  using assms
proof (induction xs arbitrary: dst first)
  case Nil
  then show ?case by auto
next
  case (Cons x xs)
  from Cons.prems(1) obtain z zs where z: "xs @ ys = z # zs" by (cases "xs @ ys") auto
  from resolvePath_step_rooted [OF Cons.prems(2,3), of x first]
  have "\<exists>dst' first'. dst' \<noteq> [] \<and> hd dst' = CHR ''/''
          \<and> walk (xs @ ys) (fst (resolvePath_step x dst first)) (snd (resolvePath_step x dst first))
              = walk ys dst' first'"
    by (intro Cons.IH [OF Cons.prems(1)]) simp_all
  with z show ?case by simp
qed

lemma walk_weird:
  assumes "dst \<noteq> []" "hd dst = CHR ''/''"
  shows "\<exists>D. D \<noteq> [] \<and> walk [''weird'', ''path'', []] dst first = ([], D @ ''weird/path/'')"
  using assms by (cases first) (simp_all add: resolvePath_step_def)

lemma finish_weird:
  assumes "D \<noteq> []"
  shows "\<exists>X. finish ([], D @ ''weird/path/'') = X @ ''weird/path/''"
proof (cases "length (D @ ''weird/path/'') > 1 \<and> (D @ ''weird/path/'') ! 1 = CHR ''/''")
  case True
  with assms have "finish ([], D @ ''weird/path/'') = tl D @ ''weird/path/''"
    by (cases D) (simp_all add: finish_def Let_def drop_Suc)
  then show ?thesis by blast
next
  case False
  then have "finish ([], D @ ''weird/path/'') = D @ ''weird/path/''"
    by (simp add: finish_def Let_def)
  then show ?thesis by blast
qed

lemma resolvePath_finish:
  "resolvePath base ref =
     (let full = (if ref = [] then base
                  else if hd ref \<noteq> CHR ''/'' then
                    (case strings_LastIndex base CHR ''/'' of
                       None \<Rightarrow> ref | Some i \<Rightarrow> take (i + 1) base @ ref)
                  else ref)
      in if full = [] then [] else finish (walk (splitSlash full) ''/'' True))"
  by (simp add: resolvePath_def finish_def Let_def resolvePath_loop_walk split: prod.splits)

lemma resolvePath_weird: "\<exists>X. resolvePath bp ''weird/path/'' = X @ ''weird/path/''"
proof (cases "strings_LastIndex bp CHR ''/''")
  case None
  from walk_weird [of "''/''" True] obtain D where
    D: "D \<noteq> []" "walk [''weird'', ''path'', []] ''/'' True = ([], D @ ''weird/path/'')" by auto
  from finish_weird [OF D(1)] D(2) None show ?thesis
    by (simp add: resolvePath_finish)
next
  case (Some i)
  from strings_LastIndex_Some [OF Some] have i: "i < length bp" "bp ! i = CHR ''/''" by simp_all
  then have t: "take (i + 1) bp = take i bp @ ''/''" by (simp add: take_Suc_conv_app_nth)
  have sp: "splitSlash (take (i + 1) bp @ ''weird/path/'')
      = splitSlash (take i bp) @ [''weird'', ''path'', []]"
    unfolding t using splitSlash_append [of "take i bp" "''weird/path/''"] by simp
  from walk_append [of "[''weird'', ''path'', []]" "''/''" "splitSlash (take i bp)" True]
  obtain dst' first' where d: "dst' \<noteq> []" "hd dst' = CHR ''/''"
    "walk (splitSlash (take i bp) @ [''weird'', ''path'', []]) ''/'' True
       = walk [''weird'', ''path'', []] dst' first'" by auto
  from walk_weird [OF d(1,2), of first'] obtain D where
    D: "D \<noteq> []" "walk [''weird'', ''path'', []] dst' first' = ([], D @ ''weird/path/'')" by auto
  from finish_weird [OF D(1)] obtain X where "finish ([], D @ ''weird/path/'') = X @ ''weird/path/''"
    by auto
  with D(2) d(3) sp Some show ?thesis by (simp add: resolvePath_finish)
qed


lemma unescape_decode_plain:
  "CHR ''%'' \<notin> set w \<Longrightarrow> CHR ''+'' \<notin> set w \<Longrightarrow> unescape_decode mode w = w"
  by (induction w) auto

lemma unescape_decode_suffix:
  assumes w: "CHR ''%'' \<notin> set w" "CHR ''+'' \<notin> set w" "w \<noteq> []" "\<not> ishex (hd w)"
    and ok: "unescape_check mode (x @ w) = None"
  shows "unescape_decode mode (x @ w) = unescape_decode mode x @ w"
  using ok
proof (induction "length x" arbitrary: x rule: less_induct)
  case less
  show ?case
  proof (cases x)
    case Nil
    with w show ?thesis by (simp add: unescape_decode_plain)
  next
    case (Cons c cs)
    show ?thesis
    proof (cases "c = CHR ''%''")
      case False
      have "unescape_check mode (cs @ w) = None"
        using less.prems Cons False by (auto split: if_splits)
      with less.hyps [of cs] Cons have "unescape_decode mode (cs @ w) = unescape_decode mode cs @ w"
        by simp
      with Cons False show ?thesis by simp
    next
      case True
      from less.prems Cons True
      have h: "length (cs @ w) \<ge> 2" "ishex ((cs @ w) ! 0)" "ishex ((cs @ w) ! 1)"
        and r: "unescape_check mode (drop 2 (cs @ w)) = None"
        by (auto split: if_splits)
      have "\<exists>h1 h2 cs'. cs = h1 # h2 # cs'"
      proof (cases cs)
        case Nil
        with h(2) w show ?thesis by (cases w) auto
      next
        case (Cons h1 t)
        show ?thesis
        proof (cases t)
          case Nil
          with Cons h(3) w show ?thesis by (cases w) auto
        next
          case (Cons h2 cs')
          with \<open>cs = h1 # t\<close> show ?thesis by simp
        qed
      qed
      then obtain h1 h2 cs' where cs: "cs = h1 # h2 # cs'" by blast
      with r have "unescape_check mode (cs' @ w) = None" by simp
      with less.hyps [of cs'] Cons cs
      have "unescape_decode mode (cs' @ w) = unescape_decode mode cs' @ w" by simp
      with Cons True cs show ?thesis by simp
    qed
  qed
qed

lemma unescape_suffix:
  assumes w: "CHR ''%'' \<notin> set w" "CHR ''+'' \<notin> set w" "w \<noteq> []" "\<not> ishex (hd w)"
    and u: "unescape (x @ w) mode = Inr y"
  shows "\<exists>Y. y = Y @ w"
proof -
  from u have ok: "unescape_check mode (x @ w) = None"
    by (auto simp: unescape_def split: option.splits)
  from u ok have "y = x @ w \<or> y = unescape_decode mode (x @ w)"
    by (auto simp: unescape_def split: if_splits)
  with unescape_decode_suffix [OF w ok] show ?thesis by auto
qed

lemma weird_props:
  "CHR ''%'' \<notin> set ''weird/path/''" "CHR ''+'' \<notin> set ''weird/path/''"
  "''weird/path/'' \<noteq> []" "\<not> ishex (hd ''weird/path/'')"
  by (simp_all add: ishex_def isDigit_def byte_def)

lemma parse_weird: "url_Parse ''weird/path/'' = Inr (emptyURL\<lparr>Path := ''weird/path/''\<rparr>)"
  by code_simp

lemma EscapedPath_weird: "EscapedPath (emptyURL\<lparr>Path := ''weird/path/''\<rparr>) = ''weird/path/''"
  by code_simp

lemma ResolveReference_relative:
  assumes "Scheme ref = []" "Host ref = []" "User ref = None" "Opaque ref = []" "Path ref \<noteq> []"
  shows "ResolveReference base ref
      = setPath_ignore (ref\<lparr>Scheme := Scheme base, Host := Host base, User := User base\<rparr>)
          (resolvePath (EscapedPath base) (EscapedPath ref))"
  using assms by (simp add: ResolveReference_def)

lemma URL_Parse_weird_path:
  assumes "URL_Parse base ''weird/path/'' = Inr u"
  shows "\<exists>Y. Path u = Y @ ''weird/path/''"
proof -
  define ref where "ref = emptyURL\<lparr>Path := ''weird/path/''\<rparr>"
  have f: "Scheme ref = []" "Host ref = []" "User ref = None" "Opaque ref = []" "Path ref \<noteq> []"
    "Path ref = ''weird/path/''"
    by (simp_all add: ref_def emptyURL_def)
  have e: "EscapedPath ref = ''weird/path/''" unfolding ref_def by (rule EscapedPath_weird)
  from assms have u: "u = ResolveReference base ref"
    by (simp add: URL_Parse_def parse_weird ref_def)
  obtain X where X: "resolvePath (EscapedPath base) ''weird/path/'' = X @ ''weird/path/''"
    using resolvePath_weird by blast
  from u X e have u': "u = setPath_ignore
      (ref\<lparr>Scheme := Scheme base, Host := Host base, User := User base\<rparr>) (X @ ''weird/path/'')"
    by (simp add: ResolveReference_relative [OF f(1-5)])
  show ?thesis
  proof (cases "unescape (X @ ''weird/path/'') encodePath")
    case (Inl e)
    with u' f(6) have "Path u = ''weird/path/''"
      by (simp add: setPath_ignore_def setPath_def)
    then show ?thesis by simp
  next
    case (Inr y)
    with u' have "Path u = y" by (simp add: setPath_ignore_def setPath_def)
    with unescape_suffix [OF weird_props Inr] show ?thesis by simp
  qed
qed

text \<open>
  Claim C7, as stated, fails: for the page \<open>https://site.test/page\<close> the entry
  \<open>weird/path/\<close> at index 0 gets the file name \<open>path\<close>, not \<open>image_1.jpg\<close>.
\<close>

theorem weird_path_not_synthesized:
  "entryFileName ''https://site.test/page'' ''weird/path/'' 0 = Inr ''path''"
  by code_simp

text \<open>
  Claim C7, amended. For an entry whose \<open>src\<close> is \<open>weird/path/\<close>, at every index
  and against every base, the path of the resolved URL has no inferable
  extension (\<open>getFileExtension\<close> gives \<open>.jpg\<close>), and the derived file name is
  \<open>path\<close>: the trailing slash is ignored and no name is synthesized.
\<close>

theorem weird_path_name:
  assumes "URL_Parse base ''weird/path/'' = Inr u"
  shows "deriveName (Path u) i = ''path'' \<and> getFileExtension (Path u) = ''.jpg''"
proof -
  from URL_Parse_weird_path [OF assms] obtain Y where Y: "Path u = Y @ ''weird/path/''" by blast
  have "filepath_Base (Path u) = ''path''"
    by (rule filepath_Base_last_element [where dir = "Y @ ''weird/''" and slashes = "''/''"])
       (simp_all add: Y)
  then have "deriveName (Path u) i = ''path''" by (simp add: deriveName_def)
  moreover have "getFileExtension (Path u) = ''.jpg''"
    using getFileExtension_slashes [of "''/''" "Y @ ''weird/path''"] Y by simp
  ultimately show ?thesis by simp
qed

theorem weird_path_name_witness:
  "deriveName ''/weird/path/'' 0 = ''path''"
proof -
  have "URL_Parse pageBase ''weird/path/''
      = Inr (pageBase\<lparr>Path := ''/weird/path/''\<rparr>)" by code_simp
  from weird_path_name [OF this, of 0] show ?thesis by simp
qed

subsection \<open>The loop of \<open>resolvePath\<close> and the removal of dot segments of the RFC\<close>



























subsection \<open>The URL Resolver\<close>


















subsection \<open>Escaping and unescaping a path\<close>










subsection \<open>References that carry a scheme\<close>



























subsection \<open>What \<open>resolvePath\<close> keeps: well-formed escapes and the bytes of its arguments\<close>


















subsection \<open>References without scheme and authority\<close>





end
